theory Spec2Isabelle
  imports Main "HOL-Library.Multiset"
begin

section \<open>Column values, rows and tables\<close>

text \<open>
  The service reads two PostgreSQL tables with \<^verbatim>\<open>SELECT *\<close> and never looks inside
  a row, so a column value is modelled as an integer (a timestamp is its tick count,
  a volume its count) or SQL \<^verbatim>\<open>NULL\<close>.

  The order on values is PostgreSQL's sort order: \<^verbatim>\<open>NULL\<close> sorts as larger than every
  other value, which is why \<^verbatim>\<open>ORDER BY c DESC\<close> lists the \<^verbatim>\<open>NULL\<close>s first.
\<close>

datatype cell = Val int | Null

instantiation cell :: linorder
begin

fun less_eq_cell :: "cell \<Rightarrow> cell \<Rightarrow> bool" where
  "less_eq_cell (Val a) (Val b) = (a \<le> b)"
| "less_eq_cell (Val a) Null = True"
| "less_eq_cell Null (Val b) = False"
| "less_eq_cell Null Null = True"

definition less_cell :: "cell \<Rightarrow> cell \<Rightarrow> bool" where
  "less_cell a b = (a \<le> b \<and> \<not> b \<le> (a::cell))"

instance
proof
  fix x y z :: cell
  show "(x < y) = (x \<le> y \<and> \<not> y \<le> x)"
    by (simp add: less_cell_def)
  show "x \<le> x"
    by (cases x) simp_all
  show "x \<le> y \<Longrightarrow> y \<le> z \<Longrightarrow> x \<le> z"
    by (cases x; cases y; cases z) simp_all
  show "x \<le> y \<Longrightarrow> y \<le> x \<Longrightarrow> x = y"
    by (cases x; cases y) simp_all
  show "x \<le> y \<or> y \<le> x"
    by (cases x; cases y) auto
qed

end

text \<open>
  A fetched row (an asyncpg \<^verbatim>\<open>Record\<close>) lists its column names with their values, in
  column order. A table has a schema and a bag of tuples; the list order of \<open>tuples\<close>
  is the storage order, which no query result depends on.
\<close>

type_synonym row = "(string \<times> cell) list"

record table =
  columns :: "string list"
  tuples :: "cell list list"

definition rows_of :: "table \<Rightarrow> row list" where
  "rows_of t = map (zip (columns t)) (tuples t)"

text \<open>The value of column \<open>c\<close> in a row; a row of a table with column \<open>c\<close> always has one.\<close>

definition col :: "string \<Rightarrow> row \<Rightarrow> cell" where
  "col c r = (case map_of r c of Some v \<Rightarrow> v | None \<Rightarrow> Null)"

record database =
  reachable :: bool
  tables :: "string \<rightharpoonup> table"

section \<open>The SQL statements of the service\<close>

text \<open>
  Every statement in \<^verbatim>\<open>main.py\<close> is built from
  \<^verbatim>\<open>SELECT * FROM t ORDER BY c DESC LIMIT n\<close>, alone or as the two sides of a
  \<^verbatim>\<open>UNION\<close>.
\<close>

datatype select = Select_top string string nat

datatype query = Single select | Union select select

definition latest_ohlc_sql :: query where
  "latest_ohlc_sql = Single (Select_top ''spy_ohlc'' ''recorded_at'' 5)"

definition top_options_sql :: query where
  "top_options_sql =
     Union (Select_top ''spy_option_data'' ''call_volume'' 3)
           (Select_top ''spy_option_data'' ''put_volume'' 3)"

definition recent_options_sql :: query where
  "recent_options_sql = Single (Select_top ''spy_option_data'' ''recorded_at'' 5)"

text \<open>
  \<open>order_by_desc_limit c n t rs\<close>: the list \<open>rs\<close> is an answer the server may give to
  \<^verbatim>\<open>SELECT * FROM t ORDER BY c DESC LIMIT n\<close>. It holds \<open>n\<close> rows of the table (all
  of them when the table has fewer), in non-increasing order of \<open>c\<close>, and no row left
  out has a larger \<open>c\<close> than a row returned. Rows with equal \<open>c\<close> may come in any
  order, and any of them may be the ones cut off by the limit: SQL leaves both open.
\<close>

abbreviation descending :: "string \<Rightarrow> row list \<Rightarrow> bool" where
  "descending c rs \<equiv> sorted_wrt (\<lambda>a b. col c b \<le> col c a) rs"

definition order_by_desc_limit :: "string \<Rightarrow> nat \<Rightarrow> row list \<Rightarrow> row list \<Rightarrow> bool" where
  "order_by_desc_limit c n t rs \<longleftrightarrow>
     length rs = min n (length t) \<and>
     mset rs \<subseteq># mset t \<and>
     descending c rs \<and>
     (\<forall>x \<in> set_mset (mset t - mset rs). \<forall>y \<in> set rs. col c x \<le> col c y)"

text \<open>
  A statement fails when its table or its sort column does not exist.
\<close>

fun select_runs :: "database \<Rightarrow> select \<Rightarrow> bool" where
  "select_runs d (Select_top t c n) =
     (case tables d t of None \<Rightarrow> False | Some tb \<Rightarrow> c \<in> set (columns tb))"

fun query_runs :: "database \<Rightarrow> query \<Rightarrow> bool" where
  "query_runs d (Single s) = select_runs d s"
| "query_runs d (Union s1 s2) = (select_runs d s1 \<and> select_runs d s2)"

fun select_answers :: "database \<Rightarrow> select \<Rightarrow> row list \<Rightarrow> bool" where
  "select_answers d (Select_top t c n) rs =
     (case tables d t of
        None \<Rightarrow> False
      | Some tb \<Rightarrow> c \<in> set (columns tb) \<and> order_by_desc_limit c n (rows_of tb) rs)"

text \<open>
  The lists that can be an answer to a select: all lists of the right length over the
  rows of its table. They bound the search for the two sides of a \<^verbatim>\<open>UNION\<close>.
\<close>

fun select_candidates :: "database \<Rightarrow> select \<Rightarrow> row list list" where
  "select_candidates d (Select_top t c n) =
     (case tables d t of
        None \<Rightarrow> []
      | Some tb \<Rightarrow> List.n_lists (min n (length (rows_of tb))) (rows_of tb))"

text \<open>
  \<^verbatim>\<open>UNION\<close> returns every row of either side once, whole rows compared, in an order
  the server chooses: PostgreSQL appends, then removes duplicates by hashing or sorting
  whole rows, and documents no order for the result. The statement of
  \<^verbatim>\<open>get_top_option_levels\<close> has no \<^verbatim>\<open>ORDER BY\<close> outside the \<^verbatim>\<open>UNION\<close>.
\<close>

definition sql_union :: "row list \<Rightarrow> row list \<Rightarrow> row list \<Rightarrow> bool" where
  "sql_union A B rs \<longleftrightarrow> distinct rs \<and> set rs = set A \<union> set B"

fun answers :: "database \<Rightarrow> query \<Rightarrow> row list \<Rightarrow> bool" where
  "answers d (Single s) rs = select_answers d s rs"
| "answers d (Union s1 s2) rs =
     (\<exists>A \<in> set (select_candidates d s1). \<exists>B \<in> set (select_candidates d s2).
        select_answers d s1 A \<and> select_answers d s2 B \<and> sql_union A B rs)"

text \<open>
  One answer that always exists: the table sorted by the column, largest first, cut at
  the limit; for a \<^verbatim>\<open>UNION\<close>, the two sorted sides appended, each row kept once.
\<close>

fun select_sorted :: "database \<Rightarrow> select \<Rightarrow> row list" where
  "select_sorted d (Select_top t c n) =
     (case tables d t of
        None \<Rightarrow> []
      | Some tb \<Rightarrow> take n (rev (sort_key (col c) (rows_of tb))))"

fun sorted_answer :: "database \<Rightarrow> query \<Rightarrow> row list" where
  "sorted_answer d (Single s) = select_sorted d s"
| "sorted_answer d (Union s1 s2) = remdups (select_sorted d s1 @ select_sorted d s2)"

section \<open>JSON responses\<close>

datatype json =
    JNull
  | JNum int
  | JString string
  | JArray "json list"
  | JObject "(string \<times> json) list"

fun cell_json :: "cell \<Rightarrow> json" where
  "cell_json (Val i) = JNum i"
| "cell_json Null = JNull"

text \<open>\<^verbatim>\<open>dict(row)\<close>, as the framework serialises it.\<close>

definition dict :: "row \<Rightarrow> json" where
  "dict r = JObject (map (\<lambda>(c, v). (c, cell_json v)) r)"

section \<open>Configuration\<close>

text \<open>
  \<^verbatim>\<open>os.getenv(name, default)\<close> on the process environment. The five settings are
  module constants, read once when \<^verbatim>\<open>main.py\<close> is imported; \<open>environ\<close> below is the
  environment at that moment.
\<close>

definition getenv :: "(string \<rightharpoonup> string) \<Rightarrow> string \<Rightarrow> string \<Rightarrow> string" where
  "getenv environ name dflt = (case environ name of None \<Rightarrow> dflt | Some v \<Rightarrow> v)"

definition DB_HOST :: "(string \<rightharpoonup> string) \<Rightarrow> string" where
  "DB_HOST environ =
     getenv environ ''DB_HOST'' ''dpg-cv85t1t6l47c73f4toqg-a.oregon-postgres.render.com''"

definition DB_PORT :: "(string \<rightharpoonup> string) \<Rightarrow> string" where
  "DB_PORT environ = getenv environ ''DB_PORT'' ''5432''"

definition DB_NAME :: "(string \<rightharpoonup> string) \<Rightarrow> string" where
  "DB_NAME environ = getenv environ ''DB_NAME'' ''spy_data''"

definition DB_USER :: "(string \<rightharpoonup> string) \<Rightarrow> string" where
  "DB_USER environ = getenv environ ''DB_USER'' ''spy_data_user''"

definition DB_PASS :: "(string \<rightharpoonup> string) \<Rightarrow> string" where
  "DB_PASS environ = getenv environ ''DB_PASS'' ''UgqWwwN107nzxvryK43WZUS6t44hxFJF''"

section \<open>The driver: pools, connections, failures\<close>

text \<open>The keyword arguments of \<^verbatim>\<open>asyncpg.create_pool\<close>.\<close>

record pool_args =
  user :: string
  password :: string
  database :: string
  host :: string
  port :: string
  ssl :: string

record pool =
  args :: pool_args
  checked_out :: nat
  closed :: bool

text \<open>
  Each call into the driver is recorded, whether it succeeds or raises. A pool is named
  by its position in \<open>pools\<close>.
\<close>

datatype event = Create_pool | Acquire nat | Fetch query | Release nat

record world =
  environ :: "string \<rightharpoonup> string"
  db :: database
  pools :: "pool list"
  trace :: "event list"

datatype failure = Pool_creation_failed | Acquire_failed | Query_failed

text \<open>
  What the driver and the server do during one request is not decided by the handler:
  a call may raise (bad credentials, a timeout, a lost connection), and the server
  picks the order of rows where SQL leaves it open. One \<open>driver\<close> value fixes these
  choices for one request; \<open>choice\<close> is the row list the server is inclined to send.
\<close>

record driver =
  pool_raises :: bool
  acquire_raises :: bool
  fetch_raises :: bool
  choice :: "row list"

text \<open>
  The rows the server sends for statement \<open>q\<close>. The server computes them from the
  statement it is sent and from the tables: it sends its \<open>choice\<close> when that is an
  answer to \<open>q\<close>, and the sorted answer to \<open>q\<close> otherwise. So every answer that SQL
  allows for \<open>q\<close> can be sent, and nothing else can.
\<close>

definition server_rows :: "driver \<Rightarrow> database \<Rightarrow> query \<Rightarrow> row list" where
  "server_rows d dbs q = (if answers dbs q (choice d) then choice d else sorted_answer dbs q)"

definition create_pool :: "pool_args \<Rightarrow> driver \<Rightarrow> world \<Rightarrow> (failure + nat) \<times> world" where
  "create_pool a d w =
     (let w1 = w\<lparr>trace := trace w @ [Create_pool]\<rparr> in
      if \<not> reachable (db w) \<or> pool_raises d then (Inl Pool_creation_failed, w1)
      else (Inr (length (pools w)),
            w1\<lparr>pools := pools w @ [\<lparr>args = a, checked_out = 0, closed = False\<rparr>]\<rparr>))"

definition acquire :: "nat \<Rightarrow> driver \<Rightarrow> world \<Rightarrow> (failure + nat) \<times> world" where
  "acquire p d w =
     (let w1 = w\<lparr>trace := trace w @ [Acquire p]\<rparr> in
      if acquire_raises d then (Inl Acquire_failed, w1)
      else (Inr p,
            w1\<lparr>pools := (pools w)[p := (pools w ! p)\<lparr>checked_out := Suc (checked_out (pools w ! p))\<rparr>]\<rparr>))"

definition release :: "nat \<Rightarrow> world \<Rightarrow> world" where
  "release p w =
     w\<lparr>trace := trace w @ [Release p],
       pools := (pools w)[p := (pools w ! p)\<lparr>checked_out := checked_out (pools w ! p) - 1\<rparr>]\<rparr>"

definition fetch :: "query \<Rightarrow> nat \<Rightarrow> driver \<Rightarrow> world \<Rightarrow> (failure + row list) \<times> world" where
  "fetch q conn d w =
     (let w1 = w\<lparr>trace := trace w @ [Fetch q]\<rparr> in
      if fetch_raises d \<or> \<not> query_runs (db w) q then (Inl Query_failed, w1)
      else (Inr (server_rows d (db w) q), w1))"

text \<open>
  \<^verbatim>\<open>async with pool.acquire() as conn: body\<close>. If acquiring raises, the body does not
  run and nothing is released; once acquired, the connection is released when the body
  returns and when it raises.
\<close>

definition with_acquired ::
  "nat \<Rightarrow> (nat \<Rightarrow> driver \<Rightarrow> world \<Rightarrow> (failure + 'a) \<times> world) \<Rightarrow> driver \<Rightarrow> world
     \<Rightarrow> (failure + 'a) \<times> world" where
  "with_acquired p body d w =
     (case acquire p d w of
        (Inl e, w1) \<Rightarrow> (Inl e, w1)
      | (Inr conn, w1) \<Rightarrow> (case body conn d w1 of (r, w2) \<Rightarrow> (r, release p w2)))"

section \<open>The handlers of \<^verbatim>\<open>main.py\<close>\<close>

definition connect_db :: "driver \<Rightarrow> world \<Rightarrow> (failure + nat) \<times> world" where
  "connect_db d w =
     create_pool
       \<lparr>user = DB_USER (environ w), password = DB_PASS (environ w),
        database = DB_NAME (environ w), host = DB_HOST (environ w),
        port = DB_PORT (environ w), ssl = ''require''\<rparr> d w"

definition root :: "driver \<Rightarrow> world \<Rightarrow> (failure + json) \<times> world" where
  "root d w = (Inr (JObject [(''message'', JString ''SPY Options & OHLC API is running!'')]), w)"

definition get_latest_ohlc :: "driver \<Rightarrow> world \<Rightarrow> (failure + json) \<times> world" where
  "get_latest_ohlc d w =
     (case connect_db d w of
        (Inl e, w1) \<Rightarrow> (Inl e, w1)
      | (Inr p, w1) \<Rightarrow>
          (case with_acquired p (fetch latest_ohlc_sql) d w1 of
             (Inl e, w2) \<Rightarrow> (Inl e, w2)
           | (Inr rows, w2) \<Rightarrow> (Inr (JObject [(''data'', JArray (map dict rows))]), w2)))"

definition get_top_option_levels :: "driver \<Rightarrow> world \<Rightarrow> (failure + json) \<times> world" where
  "get_top_option_levels d w =
     (case connect_db d w of
        (Inl e, w1) \<Rightarrow> (Inl e, w1)
      | (Inr p, w1) \<Rightarrow>
          (case with_acquired p (fetch top_options_sql) d w1 of
             (Inl e, w2) \<Rightarrow> (Inl e, w2)
           | (Inr rows, w2) \<Rightarrow> (Inr (JObject [(''data'', JArray (map dict rows))]), w2)))"

definition get_recent_option_levels :: "driver \<Rightarrow> world \<Rightarrow> (failure + json) \<times> world" where
  "get_recent_option_levels d w =
     (case connect_db d w of
        (Inl e, w1) \<Rightarrow> (Inl e, w1)
      | (Inr p, w1) \<Rightarrow>
          (case with_acquired p (fetch recent_options_sql) d w1 of
             (Inl e, w2) \<Rightarrow> (Inl e, w2)
           | (Inr rows, w2) \<Rightarrow> (Inr (JObject [(''data'', JArray (map dict rows))]), w2)))"

section \<open>Auxiliary notions for the statements\<close>

text \<open>
  The three data handlers differ only in their statement; \<open>data_route\<close> is their common
  body, and each handler is shown equal to its instance below.
\<close>

definition data_route :: "query \<Rightarrow> driver \<Rightarrow> world \<Rightarrow> (failure + json) \<times> world" where
  "data_route q d w =
     (case connect_db d w of
        (Inl e, w1) \<Rightarrow> (Inl e, w1)
      | (Inr p, w1) \<Rightarrow>
          (case with_acquired p (fetch q) d w1 of
             (Inl e, w2) \<Rightarrow> (Inl e, w2)
           | (Inr rows, w2) \<Rightarrow> (Inr (JObject [(''data'', JArray (map dict rows))]), w2)))"

text \<open>The pool that \<open>connect_db\<close> creates in world \<open>w\<close>, as it is when just created.\<close>

definition new_pool :: "world \<Rightarrow> pool" where
  "new_pool w =
     \<lparr>args = \<lparr>user = DB_USER (environ w), password = DB_PASS (environ w),
              database = DB_NAME (environ w), host = DB_HOST (environ w),
              port = DB_PORT (environ w), ssl = ''require''\<rparr>,
      checked_out = 0, closed = False\<rparr>"

text \<open>
  The driver calls of one request that runs to the end, on the pool it creates (the
  next free position in \<open>pools\<close>).
\<close>

definition calls :: "query \<Rightarrow> world \<Rightarrow> event list" where
  "calls q w = [Create_pool, Acquire (length (pools w)), Fetch q, Release (length (pools w))]"

text \<open>The world after a request that got past pool creation: its pool stays in \<open>pools\<close>.\<close>

definition left_behind :: "world \<Rightarrow> pool list" where
  "left_behind w = pools w @ [new_pool w]"

text \<open>The three routes with their statements.\<close>

definition data_routes :: "((driver \<Rightarrow> world \<Rightarrow> (failure + json) \<times> world) \<times> query) set" where
  "data_routes =
     {(get_latest_ohlc, latest_ohlc_sql), (get_top_option_levels, top_options_sql),
      (get_recent_option_levels, recent_options_sql)}"

text \<open>
  Some step of a request for statement \<open>q\<close> fails: the database is unreachable, or
  creating the pool, acquiring the connection or running the statement raises.
\<close>

definition faulty :: "query \<Rightarrow> driver \<Rightarrow> world \<Rightarrow> bool" where
  "faulty q d w \<longleftrightarrow>
     \<not> reachable (db w) \<or> pool_raises d \<or> acquire_raises d \<or> fetch_raises d
     \<or> \<not> query_runs (db w) q"

text \<open>
  The weakest reading of "descending by call volume, then descending by put volume":
  the list splits into a front part in non-increasing order of \<open>call_volume\<close> and a
  rest in non-increasing order of \<open>put_volume\<close>.
\<close>

definition call_then_put_order :: "row list \<Rightarrow> bool" where
  "call_then_put_order rs \<longleftrightarrow>
     list_ex (\<lambda>k. descending ''call_volume'' (take k rs) \<and> descending ''put_volume'' (drop k rs))
       [0 ..< Suc (length rs)]"

section \<open>Example states\<close>

definition ohlc_row :: "int \<Rightarrow> int \<Rightarrow> row" where
  "ohlc_row ts cl = [(''recorded_at'', Val ts), (''close'', Val cl)]"

definition option_row :: "int \<Rightarrow> int \<Rightarrow> int \<Rightarrow> row" where
  "option_row ts cv pv = [(''recorded_at'', Val ts), (''call_volume'', Val cv), (''put_volume'', Val pv)]"

definition ohlc_table :: table where
  "ohlc_table =
     \<lparr>columns = [''recorded_at'', ''close''],
      tuples = [[Val 3, Val 560], [Val 9, Val 566], [Val 1, Val 558], [Val 10, Val 567],
                [Val 6, Val 563], [Val 2, Val 559], [Val 8, Val 565], [Val 5, Val 562],
                [Val 7, Val 564], [Val 4, Val 561]]\<rparr>"

definition option_table :: table where
  "option_table =
     \<lparr>columns = [''recorded_at'', ''call_volume'', ''put_volume''],
      tuples = [[Val 1, Val 10, Val 40], [Val 2, Val 20, Val 50], [Val 3, Val 5, Val 60],
                [Val 4, Val 1, Val 2], [Val 5, Val 30, Val 1]]\<rparr>"

definition up_db :: database where
  "up_db = \<lparr>reachable = True,
            tables = [''spy_ohlc'' \<mapsto> ohlc_table, ''spy_option_data'' \<mapsto> option_table]\<rparr>"

definition up_world :: world where
  "up_world = \<lparr>environ = Map.empty, db = up_db, pools = [], trace = []\<rparr>"

definition down_world :: world where
  "down_world =
     \<lparr>environ = Map.empty, db = \<lparr>reachable = False, tables = Map.empty\<rparr>, pools = [],
      trace = []\<rparr>"

definition host_set_world :: world where
  "host_set_world = up_world\<lparr>environ := [''DB_HOST'' \<mapsto> ''localhost'']\<rparr>"

text \<open>A request in which nothing raises and the server is inclined to send \<open>rs\<close>.\<close>

definition quiet :: "row list \<Rightarrow> driver" where
  "quiet rs = \<lparr>pool_raises = False, acquire_raises = False, fetch_raises = False, choice = rs\<rparr>"

definition latest_rows :: "row list" where
  "latest_rows = [ohlc_row 10 567, ohlc_row 9 566, ohlc_row 8 565, ohlc_row 7 564, ohlc_row 6 563]"

definition recent_rows :: "row list" where
  "recent_rows =
     [option_row 5 30 1, option_row 4 1 2, option_row 3 5 60, option_row 2 20 50,
      option_row 1 10 40]"

definition top_calls :: "row list" where
  "top_calls = [option_row 5 30 1, option_row 2 20 50, option_row 1 10 40]"

definition top_puts :: "row list" where
  "top_puts = [option_row 3 5 60, option_row 2 20 50, option_row 1 10 40]"

definition top_rows :: "row list" where
  "top_rows = [option_row 5 30 1, option_row 2 20 50, option_row 1 10 40, option_row 3 5 60]"

definition storage_rows :: "row list" where
  "storage_rows = [option_row 1 10 40, option_row 2 20 50, option_row 3 5 60, option_row 5 30 1]"

section \<open>The handlers, step by step\<close>

lemma data_route_unfold:
  "data_route q d w =
     (if \<not> reachable (db w) \<or> pool_raises d
      then (Inl Pool_creation_failed, w\<lparr>trace := trace w @ take 1 (calls q w)\<rparr>)
      else if acquire_raises d
      then (Inl Acquire_failed,
            w\<lparr>trace := trace w @ take 2 (calls q w), pools := pools w @ [new_pool w]\<rparr>)
      else if fetch_raises d \<or> \<not> query_runs (db w) q
      then (Inl Query_failed,
            w\<lparr>trace := trace w @ calls q w, pools := pools w @ [new_pool w]\<rparr>)
      else (Inr (JObject [(''data'', JArray (map dict (server_rows d (db w) q)))]),
            w\<lparr>trace := trace w @ calls q w, pools := pools w @ [new_pool w]\<rparr>))"
  by (simp add: data_route_def connect_db_def create_pool_def with_acquired_def acquire_def
      fetch_def release_def new_pool_def calls_def Let_def)

lemma get_latest_ohlc_route: "get_latest_ohlc = data_route latest_ohlc_sql"
  by (rule ext)+ (simp add: get_latest_ohlc_def data_route_def)

lemma get_top_option_levels_route: "get_top_option_levels = data_route top_options_sql"
  by (rule ext)+ (simp add: get_top_option_levels_def data_route_def)

lemma get_recent_option_levels_route: "get_recent_option_levels = data_route recent_options_sql"
  by (rule ext)+ (simp add: get_recent_option_levels_def data_route_def)

lemmas routes =
  get_latest_ohlc_route get_top_option_levels_route get_recent_option_levels_route

lemma data_route_Inr:
  "data_route q d w = (Inr r, w') \<Longrightarrow>
     r = JObject [(''data'', JArray (map dict (server_rows d (db w) q)))] \<and> \<not> faulty q d w"
  by (simp add: data_route_unfold faulty_def split: if_splits)

lemma data_route_quiet:
  "\<not> faulty q d w \<Longrightarrow>
     data_route q d w =
       (Inr (JObject [(''data'', JArray (map dict (server_rows d (db w) q)))]),
        w\<lparr>trace := trace w @ calls q w, pools := pools w @ [new_pool w]\<rparr>)"
  by (simp add: data_route_unfold faulty_def)

lemma data_route_faulty:
  "faulty q d w \<Longrightarrow>
     (\<exists>e. fst (data_route q d w) = Inl e) \<and>
     (\<exists>n\<le>4. trace (snd (data_route q d w)) = trace w @ take n (calls q w))"
proof -
  assume f: "faulty q d w"
  have e: "\<exists>e. fst (data_route q d w) = Inl e"
    using f by (auto simp: data_route_unfold faulty_def)
  have "trace (snd (data_route q d w)) = trace w @ take 1 (calls q w)
        \<or> trace (snd (data_route q d w)) = trace w @ take 2 (calls q w)
        \<or> trace (snd (data_route q d w)) = trace w @ take 4 (calls q w)"
    by (simp add: data_route_unfold calls_def)
  moreover have "(1::nat) \<le> 4" "(2::nat) \<le> 4" "(4::nat) \<le> 4"
    by simp_all
  ultimately have "\<exists>n\<le>4. trace (snd (data_route q d w)) = trace w @ take n (calls q w)"
    by blast
  with e show ?thesis ..
qed

lemma up_world_quiet [simp]:
  "\<not> faulty latest_ohlc_sql (quiet rs) up_world"
  "\<not> faulty top_options_sql (quiet rs) up_world"
  "\<not> faulty recent_options_sql (quiet rs) up_world"
  by (simp_all add: faulty_def quiet_def up_world_def up_db_def latest_ohlc_sql_def
      top_options_sql_def recent_options_sql_def ohlc_table_def option_table_def)

lemma data_routes_cases:
  "(h, q) \<in> data_routes \<Longrightarrow> h = data_route q"
  by (auto simp: data_routes_def routes)

lemma fetch_Inr:
  "fetch q conn d w = (Inr rows, w') \<Longrightarrow> rows = server_rows d (db w) q"
  by (simp add: fetch_def Let_def split: if_splits)

lemma order_by_desc_limit_props:
  "order_by_desc_limit c n t rs \<Longrightarrow> length rs \<le> n \<and> descending c rs \<and> set rs \<subseteq> set t"
  by (auto simp: order_by_desc_limit_def dest: mset_subset_eqD)

section \<open>What the server may answer\<close>

text \<open>
  The answers to \<^verbatim>\<open>SELECT * FROM t ORDER BY c DESC LIMIT n\<close> are exactly the first \<open>n\<close>
  rows of the rearrangements of the table that are in non-increasing order of \<open>c\<close>;
  there always is one; and all of them show the same values of \<open>c\<close>, the \<open>n\<close>
  largest in the table.
\<close>

lemma take_sorted_perm_answers:
  assumes p: "mset p = mset t" and s: "descending c p"
  shows "order_by_desc_limit c n t (take n p)"
proof -
  have len: "length p = length t"
    using p by (metis size_mset)
  have split: "mset t = mset (take n p) + mset (drop n p)"
    using p by (metis append_take_drop_id mset_append)
  have rest: "mset t - mset (take n p) = mset (drop n p)"
    by (simp add: split)
  have "descending c (take n p @ drop n p)"
    using s by simp
  then have cut: "\<forall>x \<in> set (drop n p). \<forall>y \<in> set (take n p). col c x \<le> col c y"
    and st: "descending c (take n p)"
    unfolding sorted_wrt_append by blast+
  show ?thesis
    unfolding order_by_desc_limit_def
    using len st cut by (simp add: rest split)
qed

lemma answers_sorted_perm:
  assumes a: "order_by_desc_limit c n t rs"
  shows "\<exists>p. mset p = mset t \<and> descending c p \<and> rs = take n p"
proof -
  from a have len: "length rs = min n (length t)"
    and sub: "mset rs \<subseteq># mset t"
    and srt: "descending c rs"
    and cut: "\<forall>x \<in> set_mset (mset t - mset rs). \<forall>y \<in> set rs. col c x \<le> col c y"
    by (simp_all add: order_by_desc_limit_def)
  obtain l where l: "mset l = mset t - mset rs"
    using ex_mset by blast
  define l' where "l' = rev (sort_key (col c) l)"
  have ml': "mset l' = mset t - mset rs"
    by (simp add: l'_def l)
  have sl': "descending c l'"
  proof -
    have "sorted_wrt (\<lambda>a b. col c a \<le> col c b) (sort_key (col c) l)"
      using sorted_sort_key [of "col c" l] by (simp add: sorted_map)
    then show ?thesis
      by (simp add: l'_def sorted_wrt_rev)
  qed
  have m: "mset (rs @ l') = mset t"
    using sub by (simp add: ml')
  have s: "descending c (rs @ l')"
  proof -
    have "set l' = set_mset (mset t - mset rs)"
      by (metis ml' set_mset_mset)
    with srt sl' cut show ?thesis
      by (simp add: sorted_wrt_append)
  qed
  have "length t = length rs + length l'"
    using m by (metis length_append size_mset)
  with len have "take n (rs @ l') = rs"
    by (cases "n \<le> length t") simp_all
  with m s show ?thesis by metis
qed

lemma order_by_desc_limit_iff:
  "order_by_desc_limit c n t rs \<longleftrightarrow>
     (\<exists>p. mset p = mset t \<and> descending c p \<and> rs = take n p)"
  using answers_sorted_perm take_sorted_perm_answers by blast

lemma answer_keys:
  assumes a: "order_by_desc_limit c n t rs"
  shows "map (col c) rs = take n (rev (sort (map (col c) t)))"
proof -
  from answers_sorted_perm [OF a] obtain p
    where p: "mset p = mset t" and s: "descending c p" and rs: "rs = take n p"
    by blast
  have "sorted (rev (map (col c) p))"
    using s by (simp add: sorted_wrt_rev sorted_wrt_map rev_map [symmetric])
  moreover have "mset (rev (map (col c) p)) = mset (map (col c) t)"
    using p by (metis mset_map mset_rev)
  ultimately have "sort (map (col c) t) = rev (map (col c) p)"
    by (metis properties_for_sort)
  then have "map (col c) p = rev (sort (map (col c) t))"
    by simp
  then show ?thesis
    by (metis rs take_map)
qed

lemma answer_exists: "\<exists>rs. order_by_desc_limit c n t rs"
proof -
  have "sorted_wrt (\<lambda>a b. col c a \<le> col c b) (sort_key (col c) t)"
    using sorted_sort_key [of "col c" t] by (simp add: sorted_map)
  then have "descending c (rev (sort_key (col c) t))"
    by (simp add: sorted_wrt_rev)
  then have "order_by_desc_limit c n t (take n (rev (sort_key (col c) t)))"
    by (intro take_sorted_perm_answers) simp_all
  then show ?thesis ..
qed

lemma one_to_ten: "take 5 (rev (sort (map Val [1..10]))) = map Val [10, 9, 8, 7, 6]"
proof -
  have "sorted (map Val [1..10])"
    by code_simp
  then have "sort (map Val [1..10]) = map Val [1..10]"
    by (rule sorted_sort_id)
  then show ?thesis
    by code_simp
qed

text \<open>
  The sorted answer is an answer, so the rows the server sends for a statement that
  runs are always an answer to that statement, whatever the server's choice.
\<close>

lemma select_sorted_answers:
  "select_runs dbs s \<Longrightarrow> select_answers dbs s (select_sorted dbs s)"
proof (cases s)
  case (Select_top t c n)
  assume "select_runs dbs s"
  then obtain tb where tb: "tables dbs t = Some tb" and c: "c \<in> set (columns tb)"
    unfolding Select_top by (auto split: option.splits)
  have "sorted_wrt (\<lambda>a b. col c a \<le> col c b) (sort_key (col c) (rows_of tb))"
    using sorted_sort_key [of "col c" "rows_of tb"] by (simp add: sorted_map)
  then have "descending c (rev (sort_key (col c) (rows_of tb)))"
    by (simp add: sorted_wrt_rev)
  then have "order_by_desc_limit c n (rows_of tb) (take n (rev (sort_key (col c) (rows_of tb))))"
    by (intro take_sorted_perm_answers) simp_all
  with tb c show ?thesis
    unfolding Select_top by simp
qed

lemma select_answers_candidate:
  "select_answers dbs s rs \<Longrightarrow> rs \<in> set (select_candidates dbs s)"
proof (cases s)
  case (Select_top t c n)
  assume "select_answers dbs s rs"
  then obtain tb where tb: "tables dbs t = Some tb"
    and o: "order_by_desc_limit c n (rows_of tb) rs"
    unfolding Select_top by (auto split: option.splits)
  have "length rs = min n (length (rows_of tb))"
    using o by (simp add: order_by_desc_limit_def)
  moreover have "set rs \<subseteq> set (rows_of tb)"
    using order_by_desc_limit_props [OF o] by simp
  ultimately show ?thesis
    unfolding Select_top by (simp add: tb set_n_lists)
qed

lemma sorted_answer_answers:
  "query_runs dbs q \<Longrightarrow> answers dbs q (sorted_answer dbs q)"
proof (cases q)
  case (Single s)
  assume "query_runs dbs q"
  then show ?thesis
    unfolding Single by (simp add: select_sorted_answers)
next
  case (Union s1 s2)
  assume "query_runs dbs q"
  then have a: "select_answers dbs s1 (select_sorted dbs s1)"
    and b: "select_answers dbs s2 (select_sorted dbs s2)"
    unfolding Union by (simp_all add: select_sorted_answers)
  have "sql_union (select_sorted dbs s1) (select_sorted dbs s2)
          (remdups (select_sorted dbs s1 @ select_sorted dbs s2))"
    by (simp add: sql_union_def)
  with a b select_answers_candidate [OF a] select_answers_candidate [OF b] show ?thesis
    unfolding Union by auto
qed

lemma server_rows_answers:
  "query_runs dbs q \<Longrightarrow> answers dbs q (server_rows d dbs q)"
  by (simp add: server_rows_def sorted_answer_answers)

lemma server_rows_quiet:
  "answers dbs q rs \<Longrightarrow> server_rows (quiet rs) dbs q = rs"
  by (simp add: server_rows_def quiet_def)

text \<open>
  A data route that succeeds returns the rows of an answer to the statement it sent.
\<close>

lemma data_route_answer:
  assumes "data_route q d w = (Inr r, w')"
  shows "\<exists>rs. r = JObject [(''data'', JArray (map dict rs))] \<and> answers (db w) q rs"
proof -
  from data_route_Inr [OF assms]
  have r: "r = JObject [(''data'', JArray (map dict (server_rows d (db w) q)))]"
    and "query_runs (db w) q"
    by (simp_all add: faulty_def)
  then have "answers (db w) q (server_rows d (db w) q)"
    by (simp add: server_rows_answers)
  with r show ?thesis
    by blast
qed

lemma data_route_quiet_rows:
  assumes "answers (db w) q rs" and "\<not> faulty q (quiet rs) w"
  shows "data_route q (quiet rs) w =
           (Inr (JObject [(''data'', JArray (map dict rs))]),
            w\<lparr>trace := trace w @ calls q w, pools := pools w @ [new_pool w]\<rparr>)"
  using data_route_quiet [OF assms(2)] server_rows_quiet [OF assms(1)] by simp

text \<open>
  An answer to the \<^verbatim>\<open>UNION\<close> of two \<^verbatim>\<open>ORDER BY ... DESC LIMIT\<close> selections over one
  table is a duplicate-free list holding the rows of an answer to each selection.
\<close>

lemma union_answer:
  assumes "answers d (Union (Select_top tn c1 n1) (Select_top tn c2 n2)) rs"
  shows "\<exists>t A B. tables d tn = Some t
           \<and> order_by_desc_limit c1 n1 (rows_of t) A \<and> order_by_desc_limit c2 n2 (rows_of t) B
           \<and> distinct rs \<and> set rs = set A \<union> set B"
proof -
  from assms obtain A B
    where a: "select_answers d (Select_top tn c1 n1) A"
      and b: "select_answers d (Select_top tn c2 n2) B"
      and u: "sql_union A B rs"
    by auto
  from a obtain t where t: "tables d tn = Some t"
    and A: "order_by_desc_limit c1 n1 (rows_of t) A"
    by (auto split: option.splits)
  from b t have B: "order_by_desc_limit c2 n2 (rows_of t) B"
    by simp
  from t A B u show ?thesis
    unfolding sql_union_def by blast
qed

lemma inj_dict: "inj dict"
proof -
  have c: "inj cell_json"
    by (rule injI) (metis cell_json.elims json.distinct(1) json.inject(1))
  have "inj (\<lambda>(c, v). (c :: string, cell_json v))"
    using c by (auto simp: inj_def)
  then have "inj (map (\<lambda>(c, v). (c :: string, cell_json v)))"
    by simp
  then show ?thesis
    by (auto simp: inj_def dict_def)
qed

lemma data_inject:
  "JObject [(''data'', JArray (map dict rs))] = JObject [(''data'', JArray (map dict rs'))]
     \<longleftrightarrow> rs = rs'"
  by (simp add: inj_map_eq_map inj_dict)

lemma union_length:
  assumes "distinct rs" and "set rs = set A \<union> set B"
  shows "length rs \<le> length A + length B"
proof -
  have "length rs = card (set rs)"
    using assms(1) by (simp add: distinct_card)
  also have "\<dots> \<le> card (set A) + card (set B)"
    unfolding assms(2) by (rule card_Un_le)
  also have "\<dots> \<le> length A + length B"
    by (simp add: add_mono card_length)
  finally show ?thesis .
qed

section \<open>The example tables\<close>

lemma latest_rows_answer: "answers (db up_world) latest_ohlc_sql latest_rows"
  by (simp add: latest_ohlc_sql_def up_world_def up_db_def ohlc_table_def latest_rows_def
      ohlc_row_def rows_of_def order_by_desc_limit_def col_def)

lemma recent_rows_answer: "answers (db up_world) recent_options_sql recent_rows"
  by (simp add: recent_options_sql_def up_world_def up_db_def option_table_def
      recent_rows_def option_row_def rows_of_def order_by_desc_limit_def col_def)

lemma option_rows: "rows_of option_table =
    [option_row 1 10 40, option_row 2 20 50, option_row 3 5 60, option_row 4 1 2,
     option_row 5 30 1]"
  by (simp add: rows_of_def option_table_def option_row_def)

lemma top_calls_answer: "order_by_desc_limit ''call_volume'' 3 (rows_of option_table) top_calls"
  by (simp add: option_rows order_by_desc_limit_def top_calls_def option_row_def col_def)

lemma top_puts_answer: "order_by_desc_limit ''put_volume'' 3 (rows_of option_table) top_puts"
  by (simp add: option_rows order_by_desc_limit_def top_puts_def option_row_def col_def)

lemma top_options_answer:
  assumes "sql_union top_calls top_puts rs"
  shows "answers (db up_world) top_options_sql rs"
proof -
  have t: "tables (db up_world) ''spy_option_data'' = Some option_table"
    by (simp add: up_world_def up_db_def)
  have c: "''call_volume'' \<in> set (columns option_table)"
    "''put_volume'' \<in> set (columns option_table)"
    by (simp_all add: option_table_def)
  have n: "min 3 (length (rows_of option_table)) = 3"
    by (simp add: option_rows)
  have "top_calls \<in> set (List.n_lists 3 (rows_of option_table))"
    "top_puts \<in> set (List.n_lists 3 (rows_of option_table))"
    unfolding set_n_lists by (simp_all add: option_rows top_calls_def top_puts_def)
  with assms top_calls_answer top_puts_answer show ?thesis
    unfolding top_options_sql_def by (auto simp: t c n)
qed

lemma top_rows_answer: "answers (db up_world) top_options_sql top_rows"
  by (rule top_options_answer)
    (auto simp: sql_union_def top_rows_def top_calls_def top_puts_def option_row_def)

lemma storage_rows_answer: "answers (db up_world) top_options_sql storage_rows"
  by (rule top_options_answer)
    (auto simp: sql_union_def storage_rows_def top_calls_def top_puts_def option_row_def)

lemma latest_route_quiet:
  "get_latest_ohlc (quiet latest_rows) up_world =
     (Inr (JObject [(''data'', JArray (map dict latest_rows))]),
      up_world\<lparr>trace := trace up_world @ calls latest_ohlc_sql up_world,
          pools := pools up_world @ [new_pool up_world]\<rparr>)"
  using data_route_quiet_rows [OF latest_rows_answer] by (simp add: routes)

lemma recent_route_quiet:
  "get_recent_option_levels (quiet recent_rows) up_world =
     (Inr (JObject [(''data'', JArray (map dict recent_rows))]),
      up_world\<lparr>trace := trace up_world @ calls recent_options_sql up_world,
          pools := pools up_world @ [new_pool up_world]\<rparr>)"
  using data_route_quiet_rows [OF recent_rows_answer] by (simp add: routes)

lemma top_route_quiet:
  "get_top_option_levels (quiet top_rows) up_world =
     (Inr (JObject [(''data'', JArray (map dict top_rows))]),
      up_world\<lparr>trace := trace up_world @ calls top_options_sql up_world,
          pools := pools up_world @ [new_pool up_world]\<rparr>)"
  using data_route_quiet_rows [OF top_rows_answer] by (simp add: routes)

lemma storage_route_quiet:
  "get_top_option_levels (quiet storage_rows) up_world =
     (Inr (JObject [(''data'', JArray (map dict storage_rows))]),
      up_world\<lparr>trace := trace up_world @ calls top_options_sql up_world,
          pools := pools up_world @ [new_pool up_world]\<rparr>)"
  using data_route_quiet_rows [OF storage_rows_answer] by (simp add: routes)

section \<open>The liveness route\<close>

text \<open>
  C3. \<^verbatim>\<open>GET /\<close> returns the same fixed message in every state of the world, also when
  the database is unreachable and whatever the driver would do, and it leaves the world
  as it was.
\<close>

theorem root_fixed_message:
  "root d w = (Inr (JObject [(''message'', JString ''SPY Options & OHLC API is running!'')]), w)
   \<and> fst (root d w) = fst (root d' w')"
  by (simp add: root_def)

section \<open>Response shapes\<close>

text \<open>
  C7. A successful \<^verbatim>\<open>GET /\<close> is the object \<^verbatim>\<open>{"message": s}\<close> for a string \<open>s\<close>. A
  successful response of each data route is the object \<^verbatim>\<open>{"data": [...]}\<close> whose
  array holds \<^verbatim>\<open>dict(row)\<close> for the rows that \<open>fetch\<close> returned (the rows the server
  sent for the handler's statement, by \<open>fetch_Inr\<close>), in the order they were returned.
\<close>

theorem response_shapes:
  "(\<exists>s. fst (root d w) = Inr (JObject [(''message'', JString s)]))
   \<and> (get_latest_ohlc d w = (Inr r, w') \<longrightarrow>
        r = JObject [(''data'', JArray (map dict (server_rows d (db w) latest_ohlc_sql)))])
   \<and> (get_top_option_levels d w = (Inr r, w') \<longrightarrow>
        r = JObject [(''data'', JArray (map dict (server_rows d (db w) top_options_sql)))])
   \<and> (get_recent_option_levels d w = (Inr r, w') \<longrightarrow>
        r = JObject [(''data'', JArray (map dict (server_rows d (db w) recent_options_sql)))])"
  by (auto simp: root_def routes dest: data_route_Inr)

theorem response_shapes_witness:
  "get_latest_ohlc (quiet latest_rows) up_world =
     (Inr (JObject [(''data'', JArray (map dict latest_rows))]),
      snd (get_latest_ohlc (quiet latest_rows) up_world))
   \<and> (\<exists>s. fst (root (quiet latest_rows) up_world) = Inr (JObject [(''message'', JString s)]))"
proof -
  have f: "server_rows (quiet latest_rows) (db up_world) latest_ohlc_sql = latest_rows"
    by (rule server_rows_quiet [OF latest_rows_answer])
  have "\<exists>r. get_latest_ohlc (quiet latest_rows) up_world =
          (Inr r, snd (get_latest_ohlc (quiet latest_rows) up_world))"
    by (simp add: routes data_route_quiet)
  then obtain r where a: "get_latest_ohlc (quiet latest_rows) up_world =
          (Inr r, snd (get_latest_ohlc (quiet latest_rows) up_world))" ..
  note s = response_shapes [of "quiet latest_rows" up_world r
      "snd (get_latest_ohlc (quiet latest_rows) up_world)"]
  from s a have r: "r = JObject [(''data'', JArray (map dict latest_rows))]"
    unfolding f by blast
  from s have m: "\<exists>s. fst (root (quiet latest_rows) up_world) =
                    Inr (JObject [(''message'', JString s)])"
    by blast
  from a r m show ?thesis
    by simp
qed

section \<open>Failures\<close>

text \<open>
  C4. When the database is unreachable, or creating the pool, acquiring the connection
  or running the statement fails, each of the three data routes ends in a failure, which
  carries no rows; it has made each driver call at most once (its calls are a front part
  of \<open>calls\<close>, so nothing is retried and no other statement is tried); and \<^verbatim>\<open>GET /\<close>
  answers as always.
\<close>

theorem data_routes_fail_bare:
  assumes "(h, q) \<in> data_routes" and "faulty q d w"
  shows "(\<exists>e. fst (h d w) = Inl e)
         \<and> (\<exists>n\<le>4. trace (snd (h d w)) = trace w @ take n (calls q w))
         \<and> root d w =
             (Inr (JObject [(''message'', JString ''SPY Options & OHLC API is running!'')]), w)"
  using data_route_faulty [OF assms(2)]
  by (simp add: data_routes_cases [OF assms(1)] root_def)

theorem data_routes_fail_bare_witness:
  "(get_latest_ohlc, latest_ohlc_sql) \<in> data_routes
   \<and> \<not> reachable (db down_world)
   \<and> faulty latest_ohlc_sql (quiet latest_rows) down_world
   \<and> (\<exists>e. fst (get_latest_ohlc (quiet latest_rows) down_world) = Inl e)
   \<and> root (quiet latest_rows) down_world =
       (Inr (JObject [(''message'', JString ''SPY Options & OHLC API is running!'')]),
        down_world)"
proof -
  have h: "(get_latest_ohlc, latest_ohlc_sql) \<in> data_routes"
    by (simp add: data_routes_def)
  have u: "\<not> reachable (db down_world)"
    by (simp add: down_world_def)
  then have f: "faulty latest_ohlc_sql (quiet latest_rows) down_world"
    by (simp add: faulty_def)
  from data_routes_fail_bare [OF h f] h u f show ?thesis
    by blast
qed

section \<open>Pools and connections\<close>

text \<open>
  C8. Every invocation of a data route calls \<open>create_pool\<close> once and touches no pool
  that existed before: the pools of the world it starts in are all still there,
  unchanged, and every later call names the new pool, \<open>length (pools w)\<close>. If the pool
  was created, the handler asks it for a connection once. If the connection was
  acquired, the handler runs its statement and releases the connection once, whether
  the statement returned rows or raised; the new pool then has no connection checked
  out.
\<close>

theorem fresh_pool_acquire_release:
  assumes "(h, q) \<in> data_routes"
  shows "trace (snd (h d w)) =
           trace w @
           (if \<not> reachable (db w) \<or> pool_raises d then [Create_pool]
            else if acquire_raises d then [Create_pool, Acquire (length (pools w))]
            else [Create_pool, Acquire (length (pools w)), Fetch q, Release (length (pools w))])
         \<and> pools (snd (h d w)) =
             (if \<not> reachable (db w) \<or> pool_raises d then pools w else pools w @ [new_pool w])
         \<and> checked_out (new_pool w) = 0"
  by (simp add: data_routes_cases [OF assms] data_route_unfold calls_def new_pool_def)

theorem fresh_pool_acquire_release_witness:
  "(get_latest_ohlc, latest_ohlc_sql) \<in> data_routes
   \<and> trace (snd (get_latest_ohlc ((quiet []) \<lparr>fetch_raises := True\<rparr>) up_world)) =
       [Create_pool, Acquire 0, Fetch latest_ohlc_sql, Release 0]
   \<and> pools (snd (get_latest_ohlc ((quiet []) \<lparr>fetch_raises := True\<rparr>) up_world)) =
       [new_pool up_world]"
proof -
  have h: "(get_latest_ohlc, latest_ohlc_sql) \<in> data_routes"
    by (simp add: data_routes_def)
  from fresh_pool_acquire_release [OF h, of "(quiet []) \<lparr>fetch_raises := True\<rparr>" up_world] h
  show ?thesis
    by (simp add: quiet_def up_world_def up_db_def)
qed

text \<open>
  C10. On every exit path past pool creation, the pool the handler created is still in
  the world, open, with no connection checked out: the pools are those from before
  plus this one, so there is one more open pool than before the request. No handler
  calls \<^verbatim>\<open>pool.close()\<close>.
\<close>

theorem pool_left_open:
  assumes "(h, q) \<in> data_routes" and "reachable (db w)" and "\<not> pool_raises d"
  shows "pools (snd (h d w)) = left_behind w
         \<and> \<not> closed (last (pools (snd (h d w))))
         \<and> checked_out (last (pools (snd (h d w)))) = 0
         \<and> length (filter (\<lambda>p. \<not> closed p) (pools (snd (h d w)))) =
             Suc (length (filter (\<lambda>p. \<not> closed p) (pools w)))"
  using assms(2,3)
  by (simp add: data_routes_cases [OF assms(1)] data_route_unfold left_behind_def new_pool_def)

theorem pool_left_open_witness:
  "(get_top_option_levels, top_options_sql) \<in> data_routes
   \<and> reachable (db up_world) \<and> \<not> pool_raises (quiet top_rows)
   \<and> pools (snd (get_top_option_levels (quiet top_rows) up_world)) = [new_pool up_world]
   \<and> \<not> closed (last (pools (snd (get_top_option_levels (quiet top_rows) up_world))))"
proof -
  have h: "(get_top_option_levels, top_options_sql) \<in> data_routes"
    by (simp add: data_routes_def)
  have r: "reachable (db up_world)"
    by (simp add: up_world_def up_db_def)
  have p: "\<not> pool_raises (quiet top_rows)"
    by (simp add: quiet_def)
  have "left_behind up_world = [new_pool up_world]"
    by (simp add: left_behind_def up_world_def)
  with pool_left_open [OF h r p] h r p show ?thesis
    by (simp add: new_pool_def)
qed

section \<open>Connection settings\<close>

text \<open>
  C9. Each of \<^verbatim>\<open>DB_HOST\<close>, \<^verbatim>\<open>DB_PORT\<close>, \<^verbatim>\<open>DB_NAME\<close>, \<^verbatim>\<open>DB_USER\<close>, \<^verbatim>\<open>DB_PASS\<close> may be
  unset: the pool that \<open>connect_db\<close> creates is given the variable's value when the
  variable is set and the hardcoded default when it is not.
\<close>

theorem settings_default_or_environment:
  assumes "connect_db d w = (Inr p, w')"
  shows "p < length (pools w') \<and>
         args (pools w' ! p) =
           \<lparr>user = (case environ w ''DB_USER'' of None \<Rightarrow> ''spy_data_user'' | Some v \<Rightarrow> v),
            password = (case environ w ''DB_PASS'' of
                          None \<Rightarrow> ''UgqWwwN107nzxvryK43WZUS6t44hxFJF'' | Some v \<Rightarrow> v),
            database = (case environ w ''DB_NAME'' of None \<Rightarrow> ''spy_data'' | Some v \<Rightarrow> v),
            host = (case environ w ''DB_HOST'' of
                      None \<Rightarrow> ''dpg-cv85t1t6l47c73f4toqg-a.oregon-postgres.render.com''
                    | Some v \<Rightarrow> v),
            port = (case environ w ''DB_PORT'' of None \<Rightarrow> ''5432'' | Some v \<Rightarrow> v),
            ssl = ''require''\<rparr>"
  using assms
  by (auto simp: connect_db_def create_pool_def Let_def getenv_def DB_USER_def DB_PASS_def
      DB_NAME_def DB_HOST_def DB_PORT_def split: if_splits)

theorem settings_default_or_environment_witness:
  "connect_db (quiet []) host_set_world =
     (Inr 0, snd (connect_db (quiet []) host_set_world))
   \<and> host (args (pools (snd (connect_db (quiet []) host_set_world)) ! 0)) = ''localhost''
   \<and> port (args (pools (snd (connect_db (quiet []) host_set_world)) ! 0)) = ''5432''"
proof -
  have c: "connect_db (quiet []) host_set_world =
             (Inr 0, snd (connect_db (quiet []) host_set_world))"
    by (simp add: connect_db_def create_pool_def Let_def quiet_def host_set_world_def
        up_world_def up_db_def)
  have e: "environ host_set_world ''DB_HOST'' = Some ''localhost''"
    "environ host_set_world ''DB_PORT'' = None"
    by (simp_all add: host_set_world_def up_world_def)
  from settings_default_or_environment [OF c] c e show ?thesis
    by simp
qed

section \<open>The five latest rows\<close>

text \<open>
  C1. A successful \<^verbatim>\<open>GET /spy/ohlc/latest\<close> returns the rows of an answer to
  \<^verbatim>\<open>SELECT * FROM spy_ohlc ORDER BY recorded_at DESC LIMIT 5\<close>: 5 rows of the table (all
  of them if it has fewer) with the largest \<open>recorded_at\<close>, so at most 5 rows, in
  non-increasing order of \<open>recorded_at\<close>. A successful \<^verbatim>\<open>GET /spy/options/recent\<close> does
  the same over \<open>spy_option_data\<close>. Rows with equal \<open>recorded_at\<close> may follow each other;
  the order is PostgreSQL's sort order.
\<close>

theorem latest_five_descending:
  "(get_latest_ohlc d w = (Inr r, w') \<longrightarrow>
      (\<exists>t rs. tables (db w) ''spy_ohlc'' = Some t
         \<and> order_by_desc_limit ''recorded_at'' 5 (rows_of t) rs
         \<and> r = JObject [(''data'', JArray (map dict rs))]
         \<and> length rs \<le> 5 \<and> descending ''recorded_at'' rs))
   \<and>
   (get_recent_option_levels d w = (Inr r, w') \<longrightarrow>
      (\<exists>t rs. tables (db w) ''spy_option_data'' = Some t
         \<and> order_by_desc_limit ''recorded_at'' 5 (rows_of t) rs
         \<and> r = JObject [(''data'', JArray (map dict rs))]
         \<and> length rs \<le> 5 \<and> descending ''recorded_at'' rs))"
proof -
  have *: "\<exists>t rs. tables (db w) tn = Some t
         \<and> order_by_desc_limit ''recorded_at'' 5 (rows_of t) rs
         \<and> r = JObject [(''data'', JArray (map dict rs))]
         \<and> length rs \<le> 5 \<and> descending ''recorded_at'' rs"
    if h: "data_route (Single (Select_top tn ''recorded_at'' 5)) d w = (Inr r, w')" for tn
  proof -
    from data_route_answer [OF h] obtain rs
      where r: "r = JObject [(''data'', JArray (map dict rs))]"
        and a: "answers (db w) (Single (Select_top tn ''recorded_at'' 5)) rs"
      by blast
    from a obtain t where t: "tables (db w) tn = Some t"
      and o: "order_by_desc_limit ''recorded_at'' 5 (rows_of t) rs"
      by (auto split: option.splits)
    from order_by_desc_limit_props [OF o] t o r show ?thesis
      by blast
  qed
  from * [of "''spy_ohlc''"] * [of "''spy_option_data''"] show ?thesis
    by (simp add: routes latest_ohlc_sql_def recent_options_sql_def)
qed

theorem latest_five_descending_witness:
  "get_latest_ohlc (quiet latest_rows) up_world =
     (Inr (JObject [(''data'', JArray (map dict latest_rows))]),
      up_world\<lparr>trace := trace up_world @ calls latest_ohlc_sql up_world,
            pools := pools up_world @ [new_pool up_world]\<rparr>)
   \<and> order_by_desc_limit ''recorded_at'' 5 (rows_of ohlc_table) latest_rows
   \<and> length latest_rows \<le> 5 \<and> descending ''recorded_at'' latest_rows
   \<and> get_recent_option_levels (quiet recent_rows) up_world =
     (Inr (JObject [(''data'', JArray (map dict recent_rows))]),
      up_world\<lparr>trace := trace up_world @ calls recent_options_sql up_world,
            pools := pools up_world @ [new_pool up_world]\<rparr>)
   \<and> order_by_desc_limit ''recorded_at'' 5 (rows_of option_table) recent_rows
   \<and> length recent_rows \<le> 5 \<and> descending ''recorded_at'' recent_rows"
proof -
  have t: "tables (db up_world) ''spy_ohlc'' = Some ohlc_table"
    "tables (db up_world) ''spy_option_data'' = Some option_table"
    by (simp_all add: up_world_def up_db_def)
  note c = latest_five_descending [of "quiet latest_rows" up_world
      "JObject [(''data'', JArray (map dict latest_rows))]"
      "up_world\<lparr>trace := trace up_world @ calls latest_ohlc_sql up_world,
            pools := pools up_world @ [new_pool up_world]\<rparr>"]
  from c latest_route_quiet obtain t1 rs1
    where "tables (db up_world) ''spy_ohlc'' = Some t1"
      and "order_by_desc_limit ''recorded_at'' 5 (rows_of t1) rs1"
      and "JObject [(''data'', JArray (map dict latest_rows))] =
           JObject [(''data'', JArray (map dict rs1))]"
      and "length rs1 \<le> 5" and "descending ''recorded_at'' rs1"
    by blast
  then have c1: "order_by_desc_limit ''recorded_at'' 5 (rows_of ohlc_table) latest_rows
      \<and> length latest_rows \<le> 5 \<and> descending ''recorded_at'' latest_rows"
    unfolding data_inject by (simp add: t)
  note c' = latest_five_descending [of "quiet recent_rows" up_world
      "JObject [(''data'', JArray (map dict recent_rows))]"
      "up_world\<lparr>trace := trace up_world @ calls recent_options_sql up_world,
            pools := pools up_world @ [new_pool up_world]\<rparr>"]
  from c' recent_route_quiet obtain t2 rs2
    where "tables (db up_world) ''spy_option_data'' = Some t2"
      and "order_by_desc_limit ''recorded_at'' 5 (rows_of t2) rs2"
      and "JObject [(''data'', JArray (map dict recent_rows))] =
           JObject [(''data'', JArray (map dict rs2))]"
      and "length rs2 \<le> 5" and "descending ''recorded_at'' rs2"
    by blast
  then have c2: "order_by_desc_limit ''recorded_at'' 5 (rows_of option_table) recent_rows
      \<and> length recent_rows \<le> 5 \<and> descending ''recorded_at'' recent_rows"
    unfolding data_inject by (simp add: t)
  from c1 c2 latest_route_quiet recent_route_quiet show ?thesis
    by blast
qed

section \<open>Ten OHLC rows\<close>

text \<open>
  C5. If \<^verbatim>\<open>spy_ohlc\<close> holds exactly 10 rows whose \<open>recorded_at\<close> values are 1 to 10, a
  \<^verbatim>\<open>GET /spy/ohlc/latest\<close> in which nothing fails returns rows of the table whose
  \<open>recorded_at\<close> values are 10, 9, 8, 7, 6, in that order.
\<close>

theorem ten_rows_latest_five:
  assumes t: "tables (db w) ''spy_ohlc'' = Some t"
    and k: "mset (map (col ''recorded_at'') (rows_of t)) = mset (map Val [1..10])"
    and q: "\<not> faulty latest_ohlc_sql d w"
  shows "\<exists>rs. fst (get_latest_ohlc d w) = Inr (JObject [(''data'', JArray (map dict rs))])
           \<and> map (col ''recorded_at'') rs = map Val [10, 9, 8, 7, 6]
           \<and> set rs \<subseteq> set (rows_of t)"
proof -
  define rs where "rs = server_rows d (db w) latest_ohlc_sql"
  have h: "fst (get_latest_ohlc d w) = Inr (JObject [(''data'', JArray (map dict rs))])"
    using q by (simp add: routes data_route_quiet rs_def)
  from q have "query_runs (db w) latest_ohlc_sql"
    by (simp add: faulty_def)
  then have "answers (db w) latest_ohlc_sql rs"
    unfolding rs_def by (rule server_rows_answers)
  with t have o: "order_by_desc_limit ''recorded_at'' 5 (rows_of t) rs"
    by (simp add: latest_ohlc_sql_def)
  have "sort (map (col ''recorded_at'') (rows_of t)) = sort (map Val [1..10])"
    using k by (metis properties_for_sort sorted_sort mset_sort)
  with answer_keys [OF o] one_to_ten
  have "map (col ''recorded_at'') rs = map Val [10, 9, 8, 7, 6]"
    by simp
  moreover have "set rs \<subseteq> set (rows_of t)"
    using order_by_desc_limit_props [OF o] by simp
  ultimately show ?thesis
    using h by blast
qed

theorem ten_rows_latest_five_witness:
  "tables (db up_world) ''spy_ohlc'' = Some ohlc_table
   \<and> mset (map (col ''recorded_at'') (rows_of ohlc_table)) = mset (map Val [1..10])
   \<and> \<not> faulty latest_ohlc_sql (quiet latest_rows) up_world
   \<and> fst (get_latest_ohlc (quiet latest_rows) up_world) =
       Inr (JObject [(''data'', JArray (map dict latest_rows))])
   \<and> map (col ''recorded_at'') latest_rows = map Val [10, 9, 8, 7, 6]
   \<and> set latest_rows \<subseteq> set (rows_of ohlc_table)"
proof -
  have t: "tables (db up_world) ''spy_ohlc'' = Some ohlc_table"
    by (simp add: up_world_def up_db_def)
  have u: "[1..10] = [1, 2, 3, 4, 5, 6, 7, 8, 9, 10 :: int]"
    by code_simp
  have k: "mset (map (col ''recorded_at'') (rows_of ohlc_table)) = mset (map Val [1..10])"
    unfolding u by (simp add: ohlc_table_def rows_of_def col_def)
  have q: "\<not> faulty latest_ohlc_sql (quiet latest_rows) up_world"
    by simp
  have h: "fst (get_latest_ohlc (quiet latest_rows) up_world) =
       Inr (JObject [(''data'', JArray (map dict latest_rows))])"
    by (simp add: latest_route_quiet)
  from ten_rows_latest_five [OF t k q] obtain rs
    where "fst (get_latest_ohlc (quiet latest_rows) up_world) =
             Inr (JObject [(''data'', JArray (map dict rs))])"
      and c: "map (col ''recorded_at'') rs = map Val [10, 9, 8, 7, 6]"
        "set rs \<subseteq> set (rows_of ohlc_table)"
    by blast
  with h have "rs = latest_rows"
    by (simp add: inj_map_eq_map inj_dict)
  with c t k q h show ?thesis
    by blast
qed

section \<open>The top option levels\<close>

text \<open>
  C2. A successful \<^verbatim>\<open>GET /spy/options/top\<close> returns at most 6 rows. There are a top-3
  selection \<open>A\<close> of \<open>spy_option_data\<close> by \<open>call_volume\<close> and a top-3 selection \<open>B\<close> by
  \<open>put_volume\<close> such that the rows returned are the rows of \<open>A\<close> and of \<open>B\<close>, so every row
  returned is in one of the two; and no row occurs twice, neither among the rows fetched
  nor among the objects of the response.
\<close>

theorem top_union_rows:
  assumes h: "get_top_option_levels d w = (Inr r, w')"
  shows "\<exists>t A B rs. tables (db w) ''spy_option_data'' = Some t
           \<and> order_by_desc_limit ''call_volume'' 3 (rows_of t) A
           \<and> order_by_desc_limit ''put_volume'' 3 (rows_of t) B
           \<and> r = JObject [(''data'', JArray (map dict rs))]
           \<and> length rs \<le> 6
           \<and> set rs = set A \<union> set B
           \<and> distinct rs
           \<and> distinct (map dict rs)"
proof -
  from h have "data_route top_options_sql d w = (Inr r, w')"
    by (simp add: routes)
  from data_route_answer [OF this] obtain rs
    where r: "r = JObject [(''data'', JArray (map dict rs))]"
      and a: "answers (db w) top_options_sql rs"
    by blast
  from union_answer [OF a [unfolded top_options_sql_def]] obtain t A B
    where t: "tables (db w) ''spy_option_data'' = Some t"
      and A: "order_by_desc_limit ''call_volume'' 3 (rows_of t) A"
      and B: "order_by_desc_limit ''put_volume'' 3 (rows_of t) B"
      and d: "distinct rs" and s: "set rs = set A \<union> set B"
    by blast
  have "length A \<le> 3" "length B \<le> 3"
    using order_by_desc_limit_props [OF A] order_by_desc_limit_props [OF B] by simp_all
  with union_length [OF d s] have l: "length rs \<le> 6"
    by simp
  have "distinct (map dict rs)"
    using d inj_dict by (simp add: distinct_map inj_on_def inj_def)
  with t A B r l s d show ?thesis
    by blast
qed

theorem top_union_rows_witness:
  "get_top_option_levels (quiet top_rows) up_world =
     (Inr (JObject [(''data'', JArray (map dict top_rows))]),
      up_world\<lparr>trace := trace up_world @ calls top_options_sql up_world,
            pools := pools up_world @ [new_pool up_world]\<rparr>)
   \<and> (\<exists>A B. order_by_desc_limit ''call_volume'' 3 (rows_of option_table) A
         \<and> order_by_desc_limit ''put_volume'' 3 (rows_of option_table) B
         \<and> set top_rows = set A \<union> set B)
   \<and> length top_rows \<le> 6
   \<and> distinct top_rows
   \<and> distinct (map dict top_rows)"
proof -
  have t: "tables (db up_world) ''spy_option_data'' = Some option_table"
    by (simp add: up_world_def up_db_def)
  from top_union_rows [OF top_route_quiet] obtain t' A B rs
    where "tables (db up_world) ''spy_option_data'' = Some t'"
      and "order_by_desc_limit ''call_volume'' 3 (rows_of t') A"
      and "order_by_desc_limit ''put_volume'' 3 (rows_of t') B"
      and "JObject [(''data'', JArray (map dict top_rows))] =
           JObject [(''data'', JArray (map dict rs))]"
      and "length rs \<le> 6" and "set rs = set A \<union> set B"
      and "distinct rs" and "distinct (map dict rs)"
    by blast
  then have "order_by_desc_limit ''call_volume'' 3 (rows_of option_table) A
      \<and> order_by_desc_limit ''put_volume'' 3 (rows_of option_table) B
      \<and> set top_rows = set A \<union> set B
      \<and> length top_rows \<le> 6 \<and> distinct top_rows \<and> distinct (map dict top_rows)"
    unfolding data_inject by (simp add: t)
  with top_route_quiet show ?thesis
    by blast
qed

section \<open>The order of the top option levels\<close>

text \<open>
  C6, as stated, fails. The statement has no \<^verbatim>\<open>ORDER BY\<close> outside the \<^verbatim>\<open>UNION\<close>, so the
  server may send the rows of the union in any order, and the handler passes them
  on as they come. On the example table the union sent in the order of the whole
  rows, \<open>storage_rows\<close>, is an answer to the handler's statement; the handler returns
  it; and it is not a list of rows in descending \<open>call_volume\<close> order followed by rows
  in descending \<open>put_volume\<close> order.
\<close>

theorem top_order_counterexample:
  "answers (db up_world) top_options_sql storage_rows
   \<and> fst (get_top_option_levels (quiet storage_rows) up_world) =
       Inr (JObject [(''data'', JArray (map dict storage_rows))])
   \<and> \<not> call_then_put_order storage_rows"
proof -
  have h: "fst (get_top_option_levels (quiet storage_rows) up_world) =
       Inr (JObject [(''data'', JArray (map dict storage_rows))])"
    by (simp add: storage_route_quiet)
  have "\<not> call_then_put_order storage_rows"
    by (simp add: call_then_put_order_def storage_rows_def option_row_def col_def upt_rec)
  with storage_rows_answer h show ?thesis
    by simp
qed

text \<open>
  C6, amended. The rows of a successful \<^verbatim>\<open>GET /spy/options/top\<close> are, each once and in
  an order the server chooses, the rows of a top-3 selection \<open>A\<close> of \<open>spy_option_data\<close>
  that is in descending \<open>call_volume\<close> order and of a top-3 selection \<open>B\<close> that is in
  descending \<open>put_volume\<close> order.
\<close>

theorem top_union_rearranged:
  assumes h: "get_top_option_levels d w = (Inr r, w')"
  shows "\<exists>t A B rs. tables (db w) ''spy_option_data'' = Some t
           \<and> order_by_desc_limit ''call_volume'' 3 (rows_of t) A
           \<and> order_by_desc_limit ''put_volume'' 3 (rows_of t) B
           \<and> descending ''call_volume'' A \<and> descending ''put_volume'' B
           \<and> r = JObject [(''data'', JArray (map dict rs))]
           \<and> mset rs = mset (remdups (A @ B))"
proof -
  from h have "data_route top_options_sql d w = (Inr r, w')"
    by (simp add: routes)
  from data_route_answer [OF this] obtain rs
    where r: "r = JObject [(''data'', JArray (map dict rs))]"
      and a: "answers (db w) top_options_sql rs"
    by blast
  from union_answer [OF a [unfolded top_options_sql_def]] obtain t A B
    where t: "tables (db w) ''spy_option_data'' = Some t"
      and A: "order_by_desc_limit ''call_volume'' 3 (rows_of t) A"
      and B: "order_by_desc_limit ''put_volume'' 3 (rows_of t) B"
      and d: "distinct rs" and s: "set rs = set A \<union> set B"
    by blast
  have o: "descending ''call_volume'' A" "descending ''put_volume'' B"
    using order_by_desc_limit_props [OF A] order_by_desc_limit_props [OF B] by simp_all
  have "set rs = set (remdups (A @ B))"
    using s by simp
  moreover have "distinct (remdups (A @ B))"
    by simp
  ultimately have "mset rs = mset (remdups (A @ B))"
    using d set_eq_iff_mset_eq_distinct by blast
  with t A B o r show ?thesis
    by blast
qed

theorem top_union_rearranged_witness:
  "get_top_option_levels (quiet storage_rows) up_world =
     (Inr (JObject [(''data'', JArray (map dict storage_rows))]),
      up_world\<lparr>trace := trace up_world @ calls top_options_sql up_world,
            pools := pools up_world @ [new_pool up_world]\<rparr>)
   \<and> (\<exists>A B. order_by_desc_limit ''call_volume'' 3 (rows_of option_table) A
         \<and> order_by_desc_limit ''put_volume'' 3 (rows_of option_table) B
         \<and> descending ''call_volume'' A \<and> descending ''put_volume'' B
         \<and> mset storage_rows = mset (remdups (A @ B)))"
proof -
  have t: "tables (db up_world) ''spy_option_data'' = Some option_table"
    by (simp add: up_world_def up_db_def)
  from top_union_rearranged [OF storage_route_quiet] obtain t' A B rs
    where "tables (db up_world) ''spy_option_data'' = Some t'"
      and "order_by_desc_limit ''call_volume'' 3 (rows_of t') A"
      and "order_by_desc_limit ''put_volume'' 3 (rows_of t') B"
      and "descending ''call_volume'' A" and "descending ''put_volume'' B"
      and "JObject [(''data'', JArray (map dict storage_rows))] =
           JObject [(''data'', JArray (map dict rs))]"
      and "mset rs = mset (remdups (A @ B))"
    by blast
  then have "order_by_desc_limit ''call_volume'' 3 (rows_of option_table) A
      \<and> order_by_desc_limit ''put_volume'' 3 (rows_of option_table) B
      \<and> descending ''call_volume'' A \<and> descending ''put_volume'' B
      \<and> mset storage_rows = mset (remdups (A @ B))"
    unfolding data_inject by (simp add: t)
  with storage_route_quiet show ?thesis
    by blast
qed

end
